theory Spec2Isabelle
  imports Complex_Main
begin

section \<open>Data model\<close>

text \<open>
  The sequences are one-dimensional sequences of numbers. A C \<^verbatim>\<open>double\<close> is modelled
  by a real number or the value \<^verbatim>\<open>INFINITY\<close> of \<^verbatim>\<open>libc.math\<close>: rounding and NaN are
  outside the model. The lengths of the sequences and the indices of their cells are
  mathematical integers, assumed to stay inside the range of the machine types. Two
  places where the machine type shows are written out: the radius, which the caller
  chooses and \<^verbatim>\<open>fastdtw\<close> receives as a C \<^verbatim>\<open>int\<close>, and the \<^verbatim>\<open>unsigned int\<close> counters of the
  backtracking loop of \<^verbatim>\<open>_fastdtw.pyx\<close>, which wrap below zero.
\<close>

text \<open>
  The value of a C \<^verbatim>\<open>int\<close> (32 bits, two's complement) that an arithmetic result wraps
  to.
\<close>

definition c_int :: "int \<Rightarrow> int" where
  "c_int n = (n + 2147483648) mod 4294967296 - 2147483648"

text \<open>\<^verbatim>\<open>i - 1\<close> on an \<^verbatim>\<open>unsigned int\<close> \<open>i\<close>, a value from 0 to \<open>2^32 - 1\<close>: at 0 it wraps.\<close>

definition unsigned_pred :: "int \<Rightarrow> int" where
  "unsigned_pred i = (if i = 0 then 4294967295 else i - 1)"

datatype cdouble = Fin real | INFINITY

instantiation cdouble :: linorder
begin

fun less_cdouble :: "cdouble \<Rightarrow> cdouble \<Rightarrow> bool" where
  "less_cdouble (Fin a) (Fin b) = (a < b)"
| "less_cdouble (Fin a) INFINITY = True"
| "less_cdouble INFINITY b = False"

fun less_eq_cdouble :: "cdouble \<Rightarrow> cdouble \<Rightarrow> bool" where
  "less_eq_cdouble (Fin a) (Fin b) = (a \<le> b)"
| "less_eq_cdouble a INFINITY = True"
| "less_eq_cdouble INFINITY (Fin b) = False"

instance
proof
  fix x y z :: cdouble
  show "(x < y) = (x \<le> y \<and> \<not> y \<le> x)"
    by (cases x; cases y) auto
  show "x \<le> x"
    by (cases x) auto
  show "x \<le> y \<Longrightarrow> y \<le> z \<Longrightarrow> x \<le> z"
    by (cases x; cases y; cases z) auto
  show "x \<le> y \<Longrightarrow> y \<le> x \<Longrightarrow> x = y"
    by (cases x; cases y) auto
  show "x \<le> y \<or> y \<le> x"
    by (cases x; cases y) auto
qed

end

text \<open>\<^verbatim>\<open>cost + dt\<close> on doubles, for a finite \<^verbatim>\<open>dt\<close>.\<close>

fun add_dt :: "cdouble \<Rightarrow> real \<Rightarrow> cdouble" where
  "add_dt (Fin a) dt = Fin (a + dt)"
| "add_dt INFINITY dt = INFINITY"

text \<open>\<^verbatim>\<open>cdef struct CostEntry\<close>.\<close>

record CostEntry =
  cost :: cdouble
  prev_x_idx :: int
  prev_y_idx :: int

text \<open>
  \<^verbatim>\<open>map[pair[int, int], CostEntry] D\<close>. \<^verbatim>\<open>D[key]\<close> on a \<^verbatim>\<open>std::map\<close> inserts and returns
  a value-initialised entry when the key is missing: all three fields zero.
\<close>

type_synonym cost_table = "int \<times> int \<Rightarrow> CostEntry option"

definition zero_entry :: CostEntry where
  "zero_entry = \<lparr>cost = Fin 0, prev_x_idx = 0, prev_y_idx = 0\<rparr>"

definition map_index :: "cost_table \<Rightarrow> int \<times> int \<Rightarrow> CostEntry" where
  "map_index D k = (case D k of Some e \<Rightarrow> e | None \<Rightarrow> zero_entry)"

datatype error =
    ValueError string
  | TypeError
  | IndexError
  | OverflowError
  | UninitialisedRead

text \<open>
  The \<^verbatim>\<open>dist\<close> argument: \<^verbatim>\<open>None\<close>, a number (the order of a p-norm) or a function.
\<close>

datatype dist_arg = DistNone | DistNum real | DistFun "real \<Rightarrow> real \<Rightarrow> real"

type_synonym path = "(int \<times> int) list"

type_synonym dtw_result = "error + cdouble \<times> path"

section \<open>The solver of \<^verbatim>\<open>_fastdtw.pyx\<close>\<close>

definition manhattan :: "real \<Rightarrow> real \<Rightarrow> real" where
  "manhattan a b = \<bar>a - b\<bar>"

text \<open>
  The distance of one pair of elements. On one-dimensional sequences of floats
  \<^verbatim>\<open>dist is None or pnorm > 0\<close> selects \<^verbatim>\<open>abs(x_arr1d[i - 1] - y_arr1d[j - 1])\<close>; a function is
  called; a number that is not positive is left in \<^verbatim>\<open>dist\<close> and called, which Python
  refuses with a \<^verbatim>\<open>TypeError\<close>.
\<close>

fun apply_dist :: "dist_arg \<Rightarrow> real \<Rightarrow> real \<Rightarrow> error + real" where
  "apply_dist DistNone a b = Inr (manhattan a b)"
| "apply_dist (DistNum p) a b = (if p > 0 then Inr \<bar>a - b\<bar> else Inl TypeError)"
| "apply_dist (DistFun f) a b = Inr (f a b)"

text \<open>
  \<^verbatim>\<open>x[i - 1]\<close>. The module is compiled with \<^verbatim>\<open>boundscheck=False, wraparound=False\<close>, so an
  index outside the sequence has no defined meaning there; the model reports it as
  an \<^verbatim>\<open>IndexError\<close>.
\<close>

definition seq_get :: "real list \<Rightarrow> int \<Rightarrow> error + real" where
  "seq_get x k = (if 0 \<le> k \<and> k < int (length x) then Inr (x ! nat k) else Inl IndexError)"

text \<open>\<^verbatim>\<open>__get_cost(D, i, j, inf)\<close>.\<close>

definition get_cost :: "cost_table \<Rightarrow> int \<Rightarrow> int \<Rightarrow> cdouble \<Rightarrow> cdouble" where
  "get_cost D i j infty = (case D (i, j) of Some e \<Rightarrow> cost e | None \<Rightarrow> infty)"

text \<open>The three-way choice of the predecessor, lines 178 to 191.\<close>

definition choose_entry :: "cdouble \<Rightarrow> cdouble \<Rightarrow> cdouble \<Rightarrow> real \<Rightarrow> int \<Rightarrow> int \<Rightarrow> CostEntry" where
  "choose_entry cost_up cost_left cost_cnr dt i j =
     (if cost_up < cost_left \<and> cost_up < cost_cnr
      then \<lparr>cost = add_dt cost_up dt, prev_x_idx = i - 1, prev_y_idx = j\<rparr>
      else if cost_left < cost_cnr
      then \<lparr>cost = add_dt cost_left dt, prev_x_idx = i, prev_y_idx = j - 1\<rparr>
      else \<lparr>cost = add_dt cost_cnr dt, prev_x_idx = i - 1, prev_y_idx = j - 1\<rparr>)"

text \<open>One round of the loop over \<^verbatim>\<open>window_vec\<close>, at the cell \<open>(i, j)\<close> of the table.\<close>

definition dtw_cell :: "real list \<Rightarrow> real list \<Rightarrow> dist_arg \<Rightarrow> cost_table \<Rightarrow> int \<times> int
    \<Rightarrow> error + cost_table" where
  "dtw_cell x y distf D ij =
     (let i = fst ij; j = snd ij in
      case seq_get x (i - 1) of Inl e \<Rightarrow> Inl e | Inr a \<Rightarrow>
      (case seq_get y (j - 1) of Inl e \<Rightarrow> Inl e | Inr b \<Rightarrow>
      (case apply_dist distf a b of Inl e \<Rightarrow> Inl e | Inr dt \<Rightarrow>
        (let cost_up = get_cost D (i - 1) j INFINITY;
             cost_left = get_cost D i (j - 1) INFINITY;
             cost_cnr = get_cost D (i - 1) (j - 1) INFINITY
         in Inr (D((i, j) \<mapsto> choose_entry cost_up cost_left cost_cnr dt i j))))))"

fun dtw_loop :: "real list \<Rightarrow> real list \<Rightarrow> dist_arg \<Rightarrow> cost_table \<Rightarrow> (int \<times> int) list
    \<Rightarrow> error + cost_table" where
  "dtw_loop x y distf D [] = Inr D"
| "dtw_loop x y distf D (ij # rest) =
     (case dtw_cell x y distf D ij of Inl e \<Rightarrow> Inl e | Inr D' \<Rightarrow> dtw_loop x y distf D' rest)"

text \<open>
  The backtracking loop \<^verbatim>\<open>while not (i == j == 0)\<close>. Nothing in the loop itself bounds
  the number of rounds, so the model is a partial function: \<open>None\<close> stands for a loop
  that does not end. \<open>i\<close> and \<open>j\<close> are \<^verbatim>\<open>unsigned int\<close> here, so \<^verbatim>\<open>path.append((i-1, j-1))\<close>
  appends \<open>4294967295\<close> for a counter that is 0.
\<close>

partial_function (option) backtrack :: "cost_table \<Rightarrow> int \<Rightarrow> int \<Rightarrow> path \<Rightarrow> path option" where
  "backtrack D i j path =
     (if i = j \<and> j = 0 then Some path
      else let cost_entry = map_index D (i, j)
           in backtrack D (prev_x_idx cost_entry) (prev_y_idx cost_entry)
                (path @ [(unsigned_pred i, unsigned_pred j)]))"

declare backtrack.simps [code]

definition full_window :: "nat \<Rightarrow> nat \<Rightarrow> (int \<times> int) list" where
  "full_window len_x len_y =
     concat (map (\<lambda>i. map (\<lambda>j. (int i, int j)) [0..<len_y]) [0..<len_x])"

text \<open>\<^verbatim>\<open>if window is None: window = [(i, j) for i in range(len_x) for j in range(len_y)]\<close>.\<close>

definition window_or_full :: "real list \<Rightarrow> real list \<Rightarrow> (int \<times> int) list option
    \<Rightarrow> (int \<times> int) list" where
  "window_or_full x y window =
     (case window of None \<Rightarrow> full_window (length x) (length y) | Some w \<Rightarrow> w)"

definition initial_table :: cost_table where
  "initial_table = Map.empty((0, 0) \<mapsto> zero_entry)"

text \<open>
  \<^verbatim>\<open>dtw(x, y, window=None, dist)\<close>: the table that the loop over the window builds, then
  the backtracking. The outer \<open>option\<close> of the result is \<open>None\<close> when the call does not
  return.
\<close>

definition cost_table :: "real list \<Rightarrow> real list \<Rightarrow> (int \<times> int) list option \<Rightarrow> dist_arg
    \<Rightarrow> error + cost_table" where
  "cost_table x y window distf =
     (let window = window_or_full x y window;
          window_vec = map (\<lambda>c. (fst c + 1, snd c + 1)) window
      in dtw_loop x y distf initial_table window_vec)"

definition dtw :: "real list \<Rightarrow> real list \<Rightarrow> (int \<times> int) list option \<Rightarrow> dist_arg
    \<Rightarrow> dtw_result option" where
  "dtw x y window distf =
     (let len_x = length x; len_y = length y
      in case cost_table x y window distf of
           Inl e \<Rightarrow> Some (Inl e)
         | Inr D \<Rightarrow>
             (case backtrack D (int len_x) (int len_y) [] of
                None \<Rightarrow> None
              | Some path \<Rightarrow>
                  Some (Inr (cost (map_index D (int len_x, int len_y)), rev path))))"

section \<open>Coarsening and window expansion\<close>

text \<open>
  \<^verbatim>\<open>[(x[i] + x[1+i]) / 2 for i in range(0, len(x) - len(x) % 2, 2)]\<close>: the elements are
  averaged in pairs and an unpaired last element is dropped.
\<close>

fun reduce_by_half :: "real list \<Rightarrow> real list" where
  "reduce_by_half (a # b # rest) = (a + b) / 2 # reduce_by_half rest"
| "reduce_by_half [a] = []"
| "reduce_by_half [] = []"

text \<open>The inner loop of the row compaction, from column \<open>j\<close> on.\<close>

function scan_row :: "(int \<times> int) set \<Rightarrow> int \<Rightarrow> int \<Rightarrow> int \<Rightarrow> int \<Rightarrow> (int \<times> int) list \<times> int" where
  "scan_row window_set i j len_y new_start_j =
     (if j < len_y then
        (if (i, j) \<in> window_set then
           (let r = scan_row window_set i (j + 1) len_y (if new_start_j = - 1 then j else new_start_j)
            in ((i, j) # fst r, snd r))
         else if new_start_j \<noteq> - 1 then ([], new_start_j)
         else scan_row window_set i (j + 1) len_y new_start_j)
      else ([], new_start_j))"
  by pat_completeness auto
termination
  by (relation "measure (\<lambda>(window_set, i, j, len_y, new_start_j). nat (len_y - j))") auto

text \<open>The outer loop, from row \<open>i\<close> on, with the cursor \<open>start_j\<close>.\<close>

function expand_rows :: "(int \<times> int) set \<Rightarrow> int \<Rightarrow> int \<Rightarrow> int \<Rightarrow> int \<Rightarrow> (int \<times> int) list" where
  "expand_rows window_set i len_x len_y start_j =
     (if i < len_x then
        (let r = scan_row window_set i start_j len_y (- 1)
         in fst r @ expand_rows window_set (i + 1) len_x len_y (snd r))
      else [])"
  by pat_completeness auto
termination
  by (relation "measure (\<lambda>(window_set, i, len_x, len_y, start_j). nat (len_x - i))") auto

declare scan_row.simps [simp del] expand_rows.simps [simp del]

text \<open>The offsets written to \<^verbatim>\<open>vec\<close>, in the order of the two loops.\<close>

definition offsets :: "int \<Rightarrow> (int \<times> int) list" where
  "offsets radius =
     concat (map (\<lambda>a. map (\<lambda>b. (a, b)) [- radius..radius]) [- radius..radius])"

definition dilate :: "path \<Rightarrow> (int \<times> int) list \<Rightarrow> nat \<Rightarrow> (int \<times> int) list" where
  "dilate path vec len_vec =
     concat (map (\<lambda>(i, j). map (\<lambda>k. (i + fst (vec ! k), j + snd (vec ! k))) [0..<len_vec]) path)"

definition children :: "int \<times> int \<Rightarrow> (int \<times> int) list" where
  "children ij = (let i = fst ij; j = snd ij in
     [(i * 2, j * 2), (i * 2, j * 2 + 1), (i * 2 + 1, j * 2), (i * 2 + 1, j * 2 + 1)])"

text \<open>
  \<^verbatim>\<open>__expand_window(path, len_x, len_y, radius)\<close>. The vector \<^verbatim>\<open>vec\<close> holds the offsets the
  two loops wrote; the loop over the path reads \<^verbatim>\<open>len_vec = (2 * radius + 1)**2\<close> of them.
  For a negative radius nothing was written, and a read of \<^verbatim>\<open>vec[k]\<close> has no defined
  value: the model reports it as \<open>UninitialisedRead\<close>.
\<close>

definition expand_window :: "path \<Rightarrow> int \<Rightarrow> int \<Rightarrow> int \<Rightarrow> error + (int \<times> int) list" where
  "expand_window path len_x len_y radius =
     (let len_vec = nat ((2 * radius + 1) ^ 2);
          vec = offsets radius
      in if path \<noteq> [] \<and> length vec < len_vec then Inl UninitialisedRead
         else
           (let path_set = dilate path vec len_vec;
                window_set = concat (map children path_set)
            in Inr (expand_rows (set window_set) 0 len_x len_y 0)))"

section \<open>The recursive driver\<close>

text \<open>
  \<^verbatim>\<open>fastdtw(x, y, int radius=1, dist=None)\<close> checks \<^verbatim>\<open>dist\<close> and calls \<^verbatim>\<open>__fastdtw\<close>, which
  calls \<^verbatim>\<open>fastdtw\<close> on the coarsened sequences; the model is the two bodies in one. The
  sequences are one-dimensional, so the check of the widths does not apply. The
  radius is a C \<^verbatim>\<open>int\<close>: a Python integer outside its range is refused with an
  \<^verbatim>\<open>OverflowError\<close> when the argument is converted, and \<^verbatim>\<open>cdef int min_time_size\<close> holds
  \<^verbatim>\<open>radius + 2\<close> as the machine computes it, wrapped into the range of \<^verbatim>\<open>int\<close>. The
  recursion is a partial function: \<open>None\<close> stands for a recursion that does not end
  (Python stops it with a \<^verbatim>\<open>RecursionError\<close>).
\<close>

definition nonpositive_number :: "dist_arg \<Rightarrow> bool" where
  "nonpositive_number distf = (case distf of DistNum p \<Rightarrow> p \<le> 0 | _ \<Rightarrow> False)"

partial_function (option) fastdtw :: "real list \<Rightarrow> real list \<Rightarrow> int \<Rightarrow> dist_arg
    \<Rightarrow> dtw_result option" where
  "fastdtw x y radius distf =
     (if radius < - 2147483648 \<or> 2147483647 < radius
      then Some (Inl OverflowError)
      else if nonpositive_number distf
      then Some (Inl (ValueError ''dist cannot be a negative integer''))
      else
        (let min_time_size = c_int (radius + 2) in
         if int (length x) < min_time_size \<or> int (length y) < min_time_size
         then dtw x y None distf
         else
           Option.bind (fastdtw (reduce_by_half x) (reduce_by_half y) radius distf)
             (\<lambda>r. case r of
                Inl e \<Rightarrow> Some (Inl e)
              | Inr (distance, path) \<Rightarrow>
                  (case expand_window path (int (length x)) (int (length y)) radius of
                     Inl e \<Rightarrow> Some (Inl e)
                   | Inr window \<Rightarrow> dtw x y (Some window) distf))))"

declare fastdtw.simps [code]

section \<open>The solver of \<^verbatim>\<open>part_000\<close>\<close>

text \<open>
  The window is shifted by one in a list comprehension, the costs of the three
  neighbours are read with \<^verbatim>\<open>D.find\<close>, and \<^verbatim>\<open>dist\<close> is a function. The backtracking loop
  has the text of the one of \<^verbatim>\<open>_fastdtw.pyx\<close>, on \<^verbatim>\<open>cdef int i, j\<close>: \<^verbatim>\<open>i - 1\<close> is \<open>-1\<close> for a
  counter that is 0.
\<close>

definition dtw_cell_p0 :: "real list \<Rightarrow> real list \<Rightarrow> (real \<Rightarrow> real \<Rightarrow> real) \<Rightarrow> cost_table
    \<Rightarrow> int \<times> int \<Rightarrow> error + cost_table" where
  "dtw_cell_p0 x y f D ij =
     (let i = fst ij; j = snd ij in
      case seq_get x (i - 1) of Inl e \<Rightarrow> Inl e | Inr a \<Rightarrow>
      (case seq_get y (j - 1) of Inl e \<Rightarrow> Inl e | Inr b \<Rightarrow>
        (let dt = f a b;
             cost_up = (if D (i - 1, j) \<noteq> None then cost (map_index D (i - 1, j)) else INFINITY);
             cost_left = (if D (i, j - 1) \<noteq> None then cost (map_index D (i, j - 1)) else INFINITY);
             cost_cnr = (if D (i - 1, j - 1) \<noteq> None then cost (map_index D (i - 1, j - 1))
                         else INFINITY)
         in Inr (D((i, j) \<mapsto>
              (if cost_up < cost_left \<and> cost_up < cost_cnr
               then \<lparr>cost = add_dt cost_up dt, prev_x_idx = i - 1, prev_y_idx = j\<rparr>
               else if cost_left < cost_cnr
               then \<lparr>cost = add_dt cost_left dt, prev_x_idx = i, prev_y_idx = j - 1\<rparr>
               else \<lparr>cost = add_dt cost_cnr dt, prev_x_idx = i - 1, prev_y_idx = j - 1\<rparr>))))))"

fun dtw_loop_p0 :: "real list \<Rightarrow> real list \<Rightarrow> (real \<Rightarrow> real \<Rightarrow> real) \<Rightarrow> cost_table
    \<Rightarrow> (int \<times> int) list \<Rightarrow> error + cost_table" where
  "dtw_loop_p0 x y f D [] = Inr D"
| "dtw_loop_p0 x y f D (ij # rest) =
     (case dtw_cell_p0 x y f D ij of Inl e \<Rightarrow> Inl e | Inr D' \<Rightarrow> dtw_loop_p0 x y f D' rest)"

partial_function (option) backtrack_p0 :: "cost_table \<Rightarrow> int \<Rightarrow> int \<Rightarrow> path \<Rightarrow> path option"
  where
  "backtrack_p0 D i j path =
     (if i = j \<and> j = 0 then Some path
      else let cost_entry = map_index D (i, j)
           in backtrack_p0 D (prev_x_idx cost_entry) (prev_y_idx cost_entry)
                (path @ [(i - 1, j - 1)]))"

declare backtrack_p0.simps [code]

definition dtw_p0 :: "real list \<Rightarrow> real list \<Rightarrow> (int \<times> int) list option
    \<Rightarrow> (real \<Rightarrow> real \<Rightarrow> real) \<Rightarrow> dtw_result option" where
  "dtw_p0 x y window f =
     (let len_x = length x; len_y = length y;
          window = window_or_full x y window;
          window = map (\<lambda>c. (fst c + 1, snd c + 1)) window
      in case dtw_loop_p0 x y f initial_table window of
           Inl e \<Rightarrow> Some (Inl e)
         | Inr D \<Rightarrow>
             (case backtrack_p0 D (int len_x) (int len_y) [] of
                None \<Rightarrow> None
              | Some path \<Rightarrow>
                  Some (Inr (cost (map_index D (int len_x, int len_y)), rev path))))"

text \<open>
  What the \<^verbatim>\<open>unsigned int\<close> counters of \<^verbatim>\<open>_fastdtw.pyx\<close> make of a result of \<^verbatim>\<open>part_000\<close>:
  a coordinate \<open>-1\<close> of the path, appended for a counter that is 0, is \<open>4294967295\<close>
  there.
\<close>

definition as_unsigned :: "int \<Rightarrow> int" where
  "as_unsigned v = (if v = - 1 then 4294967295 else v)"

definition unsigned_cell :: "int \<times> int \<Rightarrow> int \<times> int" where
  "unsigned_cell k = (as_unsigned (fst k), as_unsigned (snd k))"

definition unsigned_path :: "dtw_result \<Rightarrow> dtw_result" where
  "unsigned_path r = (case r of Inl e \<Rightarrow> Inl e | Inr cp \<Rightarrow> Inr (fst cp, map unsigned_cell (snd cp)))"

section \<open>The solver of \<^verbatim>\<open>fastdtw.pyx\<close>\<close>

text \<open>
  The table is a \<^verbatim>\<open>defaultdict(lambda: (inf,))\<close> of tuples \<^verbatim>\<open>(cost, i, j)\<close>. A read of a
  missing key stores and returns the one-element tuple \<^verbatim>\<open>(inf,)\<close>: its element 0 is
  \<^verbatim>\<open>inf\<close> and a read of its element 1 raises \<^verbatim>\<open>IndexError\<close>. The model keeps such a key
  absent, which reads the same. The module has no \<^verbatim>\<open>boundscheck\<close> or \<^verbatim>\<open>wraparound\<close>
  directive, so \<^verbatim>\<open>x[i]\<close> is Python indexing.
\<close>

type_synonym py_table = "int \<times> int \<Rightarrow> (cdouble \<times> int \<times> int) option"

definition py_cost :: "py_table \<Rightarrow> int \<times> int \<Rightarrow> cdouble" where
  "py_cost D k = (case D k of Some t \<Rightarrow> fst t | None \<Rightarrow> INFINITY)"

definition py_get :: "real list \<Rightarrow> int \<Rightarrow> error + real" where
  "py_get x i =
     (let n = int (length x); k = (if i < 0 then n + i else i)
      in if 0 \<le> k \<and> k < n then Inr (x ! nat k) else Inl IndexError)"

definition dtw_cell_py :: "real list \<Rightarrow> real list \<Rightarrow> (real \<Rightarrow> real \<Rightarrow> real) \<Rightarrow> int \<Rightarrow> py_table
    \<Rightarrow> int \<times> int \<Rightarrow> error + py_table" where
  "dtw_cell_py x y f len_y_p1 D ij =
     (let i = fst ij; j = snd ij in
      case py_get x i of Inl e \<Rightarrow> Inl e | Inr a \<Rightarrow>
      (case py_get y j of Inl e \<Rightarrow> Inl e | Inr b \<Rightarrow>
        (let dt = f a b;
             ip = i + 1;
             jp = j + 1;
             d_00 = py_cost D (i, j);
             d_10 = py_cost D (ip, j)
         in if j = len_y_p1 then
              (if d_00 < d_10 then Inr (D((ip, jp) \<mapsto> (add_dt d_00 dt, i, j)))
               else Inr (D((ip, jp) \<mapsto> (add_dt d_10 dt, i, jp))))
            else
              (let d_01 = py_cost D (i, jp)
               in if d_00 < d_10 \<and> d_00 < d_01 then Inr (D((ip, jp) \<mapsto> (add_dt d_00 dt, i, j)))
                  else if d_10 < d_01 then Inr (D((ip, jp) \<mapsto> (add_dt d_10 dt, i + 1, j)))
                  else Inr (D((ip, jp) \<mapsto> (add_dt d_01 dt, i, j + 1)))))))"

fun dtw_loop_py :: "real list \<Rightarrow> real list \<Rightarrow> (real \<Rightarrow> real \<Rightarrow> real) \<Rightarrow> int \<Rightarrow> py_table
    \<Rightarrow> (int \<times> int) list \<Rightarrow> error + py_table" where
  "dtw_loop_py x y f len_y_p1 D [] = Inr D"
| "dtw_loop_py x y f len_y_p1 D (ij # rest) =
     (case dtw_cell_py x y f len_y_p1 D ij of
        Inl e \<Rightarrow> Inl e
      | Inr D' \<Rightarrow> dtw_loop_py x y f len_y_p1 D' rest)"

partial_function (option) backtrack_py :: "py_table \<Rightarrow> int \<Rightarrow> int \<Rightarrow> path \<Rightarrow> (error + path) option"
  where
  "backtrack_py D i j path =
     (if i = j \<and> j = 0 then Some (Inr path)
      else case D (i, j) of
             None \<Rightarrow> Some (Inl IndexError)
           | Some t \<Rightarrow> backtrack_py D (fst (snd t)) (snd (snd t)) (path @ [(i - 1, j - 1)]))"

declare backtrack_py.simps [code]

definition initial_table_py :: py_table where
  "initial_table_py = Map.empty((0, 0) \<mapsto> (Fin 0, 0, 0))"

definition dtw_py :: "real list \<Rightarrow> real list \<Rightarrow> (int \<times> int) list option
    \<Rightarrow> (real \<Rightarrow> real \<Rightarrow> real) \<Rightarrow> dtw_result option" where
  "dtw_py x y window f =
     (let len_x = length x; len_y = length y;
          window = window_or_full x y window;
          len_y_p1 = int len_y + 1
      in case dtw_loop_py x y f len_y_p1 initial_table_py window of
           Inl e \<Rightarrow> Some (Inl e)
         | Inr D \<Rightarrow>
             (case backtrack_py D (int len_x) (int len_y) [] of
                None \<Rightarrow> None
              | Some (Inl e) \<Rightarrow> Some (Inl e)
              | Some (Inr path) \<Rightarrow> Some (Inr (py_cost D (int len_x, int len_y), rev path))))"

section \<open>The properties the claims speak of\<close>

text \<open>A path that starts at \<open>(0, 0)\<close>, ends at the last cell and moves by the three steps.\<close>

definition step_ok :: "int \<times> int \<Rightarrow> int \<times> int \<Rightarrow> bool" where
  "step_ok a b =
     (b = (fst a + 1, snd a) \<or> b = (fst a, snd a + 1) \<or> b = (fst a + 1, snd a + 1))"

definition valid_path :: "nat \<Rightarrow> nat \<Rightarrow> path \<Rightarrow> bool" where
  "valid_path len_x len_y p =
     (p \<noteq> [] \<and> hd p = (0, 0) \<and> last p = (int len_x - 1, int len_y - 1)
      \<and> successively step_ok p)"

text \<open>Row-major order of the cells.\<close>

definition cell_less :: "int \<times> int \<Rightarrow> int \<times> int \<Rightarrow> bool" where
  "cell_less a b = (fst a < fst b \<or> (fst a = fst b \<and> snd a < snd b))"

definition predecessors :: "int \<times> int \<Rightarrow> (int \<times> int) list" where
  "predecessors c = [(fst c - 1, snd c), (fst c, snd c - 1), (fst c - 1, snd c - 1)]"

definition in_range :: "real list \<Rightarrow> real list \<Rightarrow> (int \<times> int) list \<Rightarrow> bool" where
  "in_range x y w =
     list_all (\<lambda>c. 0 \<le> fst c \<and> fst c < int (length x) \<and> 0 \<le> snd c \<and> snd c < int (length y)) w"

text \<open>
  The choice of the predecessor as the specification words it, from the costs of the
  cells above, to the left and at the corner of the cell \<open>(i, j)\<close> of the table.
\<close>

definition spec_predecessor :: "cdouble \<Rightarrow> cdouble \<Rightarrow> cdouble \<Rightarrow> int \<Rightarrow> int \<Rightarrow> int \<times> int" where
  "spec_predecessor up left corner i j =
     (if up < left \<and> up < corner then (i - 1, j)
      else if left < corner then (i, j - 1)
      else (i - 1, j - 1))"

text \<open>The order of \<^verbatim>\<open>fastdtw.pyx\<close>: the corner first, the cell above last.\<close>

definition py_predecessor :: "cdouble \<Rightarrow> cdouble \<Rightarrow> cdouble \<Rightarrow> int \<Rightarrow> int \<Rightarrow> int \<times> int" where
  "py_predecessor up left corner i j =
     (if corner < left \<and> corner < up then (i - 1, j - 1)
      else if left < up then (i, j - 1)
      else (i - 1, j))"

section \<open>Notions used in the proofs\<close>

text \<open>
  What every table built by the loop satisfies: the origin keeps its entry, and every
  other entry sits at a cell of positive row and column and points to one of the three
  neighbours of its cell.
\<close>

definition table_ok :: "cost_table \<Rightarrow> bool" where
  "table_ok D = (D (0, 0) = Some zero_entry \<and>
     (\<forall>k e. D k = Some e \<longrightarrow> k \<noteq> (0, 0) \<longrightarrow>
        1 \<le> fst k \<and> 1 \<le> snd k \<and> (prev_x_idx e, prev_y_idx e) \<in> set (predecessors k)))"

text \<open>The distance that \<open>apply_dist\<close> computes when it does not fail.\<close>

definition dist_fun :: "dist_arg \<Rightarrow> real \<Rightarrow> real \<Rightarrow> real" where
  "dist_fun distf a b = (case distf of DistNone \<Rightarrow> manhattan a b | DistNum p \<Rightarrow> \<bar>a - b\<bar> | DistFun f \<Rightarrow> f a b)"

text \<open>Cells of the table that belong to elements of both sequences.\<close>

definition table_cells :: "real list \<Rightarrow> real list \<Rightarrow> (int \<times> int) list \<Rightarrow> bool" where
  "table_cells x y wv = list_all (\<lambda>c. 1 \<le> fst c \<and> fst c \<le> int (length x) \<and> 1 \<le> snd c \<and> snd c \<le> int (length y)) wv"



text \<open>
  A list of cells, taken in order after the cells of \<open>S\<close>, each of which has one of its
  three neighbours among the cells before it.
\<close>

fun linked :: "(int \<times> int) set \<Rightarrow> (int \<times> int) list \<Rightarrow> bool" where
  "linked S [] = True"
| "linked S (c # cs) = ((\<exists>p \<in> set (predecessors c). p \<in> S) \<and> linked (insert c S) cs)"






text \<open>
  The cells that \<open>expand_window\<close> offers to the row compaction: the cell of the coarse
  grid that holds \<open>c\<close> is within \<open>r\<close> rows and \<open>r\<close> columns of a cell of the coarse path.
\<close>

definition near :: "path \<Rightarrow> int \<Rightarrow> int \<times> int \<Rightarrow> bool" where
  "near P r c = (\<exists>p \<in> set P. fst p - r \<le> fst c div 2 \<and> fst c div 2 \<le> fst p + r
      \<and> snd p - r \<le> snd c div 2 \<and> snd c div 2 \<le> snd p + r)"

section \<open>The reference case\<close>

text \<open>
  Claim C1. With \<open>x = [1,2,3,4,5]\<close>, \<open>y = [2,3,4]\<close>, the default distance and the
  default radius 1, \<open>fastdtw\<close> returns the cost 2 and the path
  \<open>[(0,0), (1,0), (2,1), (3,2), (4,2)]\<close>.
\<close>

theorem fastdtw_reference_case:
  "fastdtw [1, 2, 3, 4, 5] [2, 3, 4] 1 DistNone
     = Some (Inr (Fin 2, [(0, 0), (1, 0), (2, 1), (3, 2), (4, 2)]))"
  by code_simp


section \<open>The radius is not checked\<close>

lemma apply_dist_no_ValueError: "apply_dist distf a b \<noteq> Inl (ValueError msg)"
  by (cases distf) auto

lemma dtw_cell_no_ValueError: "dtw_cell x y distf D c \<noteq> Inl (ValueError msg)"
  by (auto simp: dtw_cell_def seq_get_def Let_def apply_dist_no_ValueError
      split: sum.splits if_splits)

lemma dtw_loop_no_ValueError: "dtw_loop x y distf D w \<noteq> Inl (ValueError msg)"
  by (induction w arbitrary: D) (auto simp: dtw_cell_no_ValueError split: sum.splits)

lemma dtw_no_ValueError: "dtw x y window distf \<noteq> Some (Inl (ValueError msg))"
  by (auto simp: dtw_def cost_table_def Let_def dtw_loop_no_ValueError
      split: sum.splits option.splits)

lemma expand_window_no_ValueError:
  "expand_window path len_x len_y radius \<noteq> Inl (ValueError msg)"
  by (simp add: expand_window_def Let_def)

lemma fastdtw_no_ValueError:
  "fastdtw x y radius distf = Some res \<Longrightarrow>
     \<not> nonpositive_number distf \<longrightarrow> res \<noteq> Inl (ValueError msg)"
  apply (erule fastdtw.raw_induct[where xa="(((x, y), radius), distf)" and ya=res
      and P="\<lambda>x y radius distf res. \<not> nonpositive_number distf \<longrightarrow> res \<noteq> Inl (ValueError msg)",
      simplified, rotated])
  apply (auto simp: Let_def dtw_no_ValueError expand_window_no_ValueError
        split: if_splits sum.splits prod.splits Option.bind_splits)
  done

text \<open>
  Claim C7, as the code has it. \<open>fastdtw\<close> checks \<open>dist\<close> and nothing else: with a
  \<open>dist\<close> that passes the check, a call with a negative radius never ends in a
  \<open>ValueError\<close>, the only error the validation raises. After its conversion to a C
  \<open>int\<close> the radius is first read by \<open>__fastdtw\<close>, in \<open>min_time_size = radius + 2\<close>.
\<close>

theorem fastdtw_no_radius_check:
  "radius < 0 \<Longrightarrow> \<not> nonpositive_number distf \<Longrightarrow>
     fastdtw x y radius distf \<noteq> Some (Inl (ValueError msg))"
  using fastdtw_no_ValueError by blast

theorem fastdtw_no_radius_check_witness:
  "fastdtw [1] [1] (- 1) DistNone \<noteq> Some (Inl (ValueError ''radius''))"
  using fastdtw_no_radius_check [of "- 1" DistNone "[1]" "[1]" "''radius''"]
  by (simp add: nonpositive_number_def)

text \<open>With the radius \<open>-1\<close> the call returns a cost and a path, and no error.\<close>

theorem negative_radius_counterexample:
  "fastdtw [1] [1] (- 1) DistNone = Some (Inr (Fin 0, [(0, 0)]))"
  by code_simp

section \<open>The row compaction\<close>

lemma scan_row_cursor_from:
  "snd (scan_row W i j len_y ns) =
     (if ns \<noteq> - 1 then ns
      else (case filter (\<lambda>c. snd c \<noteq> - 1) (fst (scan_row W i j len_y ns)) of
              [] \<Rightarrow> - 1 | c # _ \<Rightarrow> snd c))"
proof (induction W i j len_y ns rule: scan_row.induct)
  case (1 W i j len_y ns)
  show ?case
  proof (cases "j < len_y")
    case False
    then show ?thesis by (simp add: scan_row.simps[of W i j])
  next
    case True
    show ?thesis
    proof (cases "(i, j) \<in> W")
      case inW: True
      with True 1(1) show ?thesis
        by (simp add: scan_row.simps[of W i j] Let_def)
    next
      case notW: False
      with True 1(2) show ?thesis
        by (simp add: scan_row.simps[of W i j] Let_def)
    qed
  qed
qed

text \<open>
  Claim C9, as the code has it. The scan of a row starts with \<open>new_start_j = -1\<close> and
  \<open>start_j = new_start_j\<close> ends it, so the cursor of the next row is the first included
  column of the row that is not \<open>-1\<close>, and \<open>-1\<close> when there is none: a row that
  contributes nothing resets the cursor to \<open>-1\<close>. For a row scanned from a column
  \<open>start_j \<ge> 0\<close> that is the first included column of the row.
\<close>

theorem scan_row_cursor:
  "snd (scan_row W i start_j len_y (- 1)) =
     (case filter (\<lambda>c. snd c \<noteq> - 1) (fst (scan_row W i start_j len_y (- 1))) of
        [] \<Rightarrow> - 1
      | c # _ \<Rightarrow> snd c)"
  using scan_row_cursor_from[of W i start_j len_y "- 1"] by simp

theorem scan_row_cursor_witness:
  "fst (scan_row {(0, 1), (0, 2)} 0 0 3 (- 1)) = [(0, 1), (0, 2)]
   \<and> snd (scan_row {(0, 1), (0, 2)} 0 0 3 (- 1)) = 1"
proof -
  have cells: "fst (scan_row {(0, 1), (0, 2)} 0 0 3 (- 1)) = [(0, 1), (0, 2)]"
    by code_simp
  with scan_row_cursor [of "{(0, 1), (0, 2)}" 0 0 3] show ?thesis
    by simp
qed

text \<open>
  The window of the coarse path \<open>[(0, 0)]\<close> with radius 0 has the cells of rows 0 and
  1. Row 2 of a sequence of length 3 is scanned from the cursor 0, contributes nothing
  and leaves the cursor at \<open>-1\<close>, not at 0. With the path \<open>[(0, 1), (2, 0)]\<close> the rows 2
  and 3 contribute nothing, and row 4 is scanned from \<open>-1\<close>: the window holds its cells
  in the columns 0 and 1, which a cursor left at 2 would pass over.
\<close>

theorem cursor_counterexample:
  "scan_row (set (concat (map children [(0, 0)]))) 1 0 3 (- 1) = ([(1, 0), (1, 1)], 0)
   \<and> scan_row (set (concat (map children [(0, 0)]))) 2 0 3 (- 1) = ([], - 1)
   \<and> expand_window [(0, 1), (2, 0)] 6 4 0
       = Inr [(0, 2), (0, 3), (1, 2), (1, 3), (4, 0), (4, 1), (5, 0), (5, 1)]"
  by code_simp

lemma scan_row_cells:
  "c \<in> set (fst (scan_row W i j len_y ns)) \<Longrightarrow>
     fst c = i \<and> j \<le> snd c \<and> snd c < len_y \<and> c \<in> W"
proof (induction W i j len_y ns rule: scan_row.induct)
  case (1 W i j len_y ns)
  then show ?case
    by (subst (asm) (3) scan_row.simps) (fastforce simp: Let_def split: if_splits)
qed

lemma cell_less_same_row: "fst c = i \<Longrightarrow> j < snd c \<Longrightarrow> cell_less (i, j) c"
  by (simp add: cell_less_def)

lemma cell_less_rows: "fst a < fst b \<Longrightarrow> cell_less a b"
  by (simp add: cell_less_def)

lemma scan_row_sorted: "sorted_wrt cell_less (fst (scan_row W i j len_y ns))"
proof (induction W i j len_y ns rule: scan_row.induct)
  case (1 W i j len_y ns)
  have "cell_less (i, j) c" if "c \<in> set (fst (scan_row W i (j + 1) len_y ns'))" for c ns'
    using scan_row_cells[OF that] by (intro cell_less_same_row) auto
  with 1 show ?case
    by (subst scan_row.simps) (simp add: Let_def)
qed

lemma expand_rows_rows:
  "c \<in> set (expand_rows W i len_x len_y s) \<Longrightarrow>
     i \<le> fst c \<and> fst c < len_x \<and> snd c < len_y \<and> c \<in> W"
proof (induction W i len_x len_y s rule: expand_rows.induct)
  case (1 W i len_x len_y s)
  from 1(2) show ?case
    by (subst (asm) expand_rows.simps)
       (fastforce simp: Let_def split: if_splits dest: scan_row_cells 1(1)[OF _ refl])
qed

lemma expand_rows_sorted: "sorted_wrt cell_less (expand_rows W i len_x len_y s)"
proof (induction W i len_x len_y s rule: expand_rows.induct)
  case (1 W i len_x len_y s)
  have "cell_less a b" if "a \<in> set (fst (scan_row W i s len_y (- 1)))"
    "b \<in> set (expand_rows W (i + 1) len_x len_y s')" for a b s'
    using scan_row_cells[OF that(1)] expand_rows_rows[OF that(2)] by (intro cell_less_rows) auto
  with 1[OF _ refl] show ?case
    by (subst expand_rows.simps) (simp add: Let_def sorted_wrt_append scan_row_sorted)
qed

lemma length_offsets: "0 \<le> radius \<Longrightarrow> length (offsets radius) = nat ((2 * radius + 1) ^ 2)"
  by (simp add: offsets_def length_concat comp_def sum_list_triv power2_eq_square
      nat_mult_distrib)

lemma expand_window_Inr:
  "0 \<le> radius \<Longrightarrow> expand_window path len_x len_y radius =
     Inr (expand_rows
       (set (concat (map children (dilate path (offsets radius) (nat ((2 * radius + 1) ^ 2))))))
       0 len_x len_y 0)"
  by (simp add: expand_window_def Let_def length_offsets)

lemma cell_less_pred: "p \<in> set (predecessors c) \<Longrightarrow> cell_less p c"
  by (auto simp: predecessors_def cell_less_def)

lemma sorted_earlier:
  assumes "sorted_wrt cell_less w" "k < length w" "p \<in> set w" "cell_less p (w ! k)"
  shows "\<exists>k'<k. w ! k' = p"
proof -
  from assms(3) obtain k' where k': "k' < length w" "w ! k' = p"
    by (auto simp: in_set_conv_nth)
  have "k' < k"
  proof (rule ccontr)
    assume "\<not> k' < k"
    then consider "k' = k" | "k < k'" by linarith
    then show False
    proof cases
      case 1
      with k' assms(4) show False by (simp add: cell_less_def)
    next
      case 2
      from sorted_wrt_nth_less[OF assms(1) 2 k'(1)] k'(2) assms(4) show False
        by (auto simp: cell_less_def)
    qed
  qed
  with k' show ?thesis by blast
qed

lemma sorted_cells_distinct: "sorted_wrt cell_less w \<Longrightarrow> distinct w"
  by (induction w) (auto simp: cell_less_def)

text \<open>
  Claim C10. For a radius that is not negative \<open>expand_window\<close> returns a window whose
  cells increase strictly in row-major order. It has no duplicates, and a predecessor
  \<open>(i-1, j)\<close>, \<open>(i, j-1)\<close> or \<open>(i-1, j-1)\<close> of a cell of the window that is in the window
  too stands before the cell.
\<close>

theorem expand_window_sorted:
  assumes "0 \<le> radius"
  shows "\<exists>w. expand_window path len_x len_y radius = Inr w
     \<and> sorted_wrt cell_less w \<and> distinct w
     \<and> (\<forall>k<length w. \<forall>p \<in> set (predecessors (w ! k)). p \<in> set w \<longrightarrow> (\<exists>k'<k. w ! k' = p))"
  using assms
  by (auto simp: expand_window_Inr expand_rows_sorted sorted_cells_distinct
      intro!: sorted_earlier cell_less_pred)

theorem expand_window_sorted_witness:
  "\<exists>w. expand_window [(0, 0)] 3 3 1 = Inr w \<and> sorted_wrt cell_less w \<and> distinct w
     \<and> (\<forall>k<length w. \<forall>p \<in> set (predecessors (w ! k)). p \<in> set w \<longrightarrow> (\<exists>k'<k. w ! k' = p))"
  using expand_window_sorted [of 1 "[(0, 0)]" 3 3] by simp

section \<open>The table of the solver\<close>

lemma apply_dist_ok: "\<not> nonpositive_number distf \<Longrightarrow> apply_dist distf a b = Inr (dist_fun distf a b)"
  by (cases distf) (auto simp: nonpositive_number_def dist_fun_def)

lemma choose_entry_prev:
  "(prev_x_idx (choose_entry u l c dt i j), prev_y_idx (choose_entry u l c dt i j)) = spec_predecessor u l c i j"
  by (simp add: choose_entry_def spec_predecessor_def)

lemma min3_chain:
  fixes u l c :: "'a::linorder"
  shows "(if u < l \<and> u < c then u else if l < c then l else c) = min u (min l c)"
  by (auto simp: min_def not_less intro: antisym)

lemma choose_entry_cost: "cost (choose_entry u l c dt i j) = add_dt (min u (min l c)) dt"
proof -
  have "cost (choose_entry u l c dt i j) = add_dt (if u < l \<and> u < c then u else if l < c then l else c) dt"
    by (simp add: choose_entry_def)
  then show ?thesis by (simp only: min3_chain)
qed

lemma spec_predecessor_in: "spec_predecessor u l c i j \<in> set (predecessors (i, j))"
  by (simp add: spec_predecessor_def predecessors_def)

lemma dtw_cell_Inr:
  assumes "dtw_cell x y distf D c = Inr D'"
  shows "1 \<le> fst c \<and> fst c \<le> int (length x) \<and> 1 \<le> snd c \<and> snd c \<le> int (length y)
     \<and> (\<exists>dt. apply_dist distf (x ! nat (fst c - 1)) (y ! nat (snd c - 1)) = Inr dt \<and> D' = D(c \<mapsto> choose_entry (get_cost D (fst c - 1) (snd c) INFINITY)
           (get_cost D (fst c) (snd c - 1) INFINITY) (get_cost D (fst c - 1) (snd c - 1) INFINITY) dt (fst c) (snd c)))"
  using assms by (auto simp: dtw_cell_def seq_get_def Let_def split: sum.splits if_splits)

lemma dtw_cell_ok:
  assumes "1 \<le> fst c" "fst c \<le> int (length x)" "1 \<le> snd c" "snd c \<le> int (length y)" "\<not> nonpositive_number distf"
  shows "dtw_cell x y distf D c = Inr (D(c \<mapsto> choose_entry (get_cost D (fst c - 1) (snd c) INFINITY)
           (get_cost D (fst c) (snd c - 1) INFINITY) (get_cost D (fst c - 1) (snd c - 1) INFINITY)
           (dist_fun distf (x ! nat (fst c - 1)) (y ! nat (snd c - 1))) (fst c) (snd c)))"
  using assms by (simp add: dtw_cell_def seq_get_def Let_def apply_dist_ok)

lemma dtw_cell_table_ok:
  assumes "dtw_cell x y distf D c = Inr D'" "table_ok D"
  shows "table_ok D'"
proof -
  from dtw_cell_Inr[OF assms(1)] obtain dt where c: "1 \<le> fst c" "1 \<le> snd c"
    and D': "D' = D(c \<mapsto> choose_entry (get_cost D (fst c - 1) (snd c) INFINITY)
           (get_cost D (fst c) (snd c - 1) INFINITY) (get_cost D (fst c - 1) (snd c - 1) INFINITY) dt (fst c) (snd c))"
    by blast
  from c have "c \<noteq> (0, 0)" by auto
  with assms(2) c show ?thesis
    unfolding D' table_ok_def
    using spec_predecessor_in[of _ _ _ "fst c" "snd c"]
    by (auto simp: choose_entry_prev)
qed

lemma dtw_loop_table_ok:
  "dtw_loop x y distf D w = Inr D' \<Longrightarrow> table_ok D \<Longrightarrow> table_ok D'"
  by (induction w arbitrary: D) (auto split: sum.splits dest: dtw_cell_table_ok)

lemma table_ok_initial: "table_ok initial_table"
  by (simp add: table_ok_def initial_table_def)

lemma backtrack_terminates:
  assumes "table_ok D" "0 \<le> i" "0 \<le> j"
  shows "\<exists>p. backtrack D i j acc = Some p"
  using assms(2,3)
proof (induction "nat (i + j)" arbitrary: i j acc rule: less_induct)
  case less
  show ?case
  proof (cases "i = 0 \<and> j = 0")
    case True
    then show ?thesis by (subst backtrack.simps) simp
  next
    case False
    show ?thesis
    proof (cases "D (i, j)")
      case None
      then have "backtrack D i j acc
          = backtrack D 0 0 (acc @ [(unsigned_pred i, unsigned_pred j)])"
        using False by (subst backtrack.simps) (auto simp: map_index_def zero_entry_def)
      then show ?thesis by (subst (asm) (2) backtrack.simps) simp
    next
      case (Some e)
      with assms(1) False have e: "1 \<le> i" "1 \<le> j" "(prev_x_idx e, prev_y_idx e) \<in> set (predecessors (i, j))"
        by (auto simp: table_ok_def)
      then have "nat (prev_x_idx e + prev_y_idx e) < nat (i + j)" "0 \<le> prev_x_idx e" "0 \<le> prev_y_idx e"
        by (auto simp: predecessors_def)
      from less(1)[OF this] obtain p where
        "backtrack D (prev_x_idx e) (prev_y_idx e) (acc @ [(unsigned_pred i, unsigned_pred j)])
           = Some p" by blast
      with Some False show ?thesis
        by (subst backtrack.simps) (auto simp: map_index_def)
    qed
  qed
qed

lemma dtw_returns: "\<exists>r. dtw x y window distf = Some r"
proof (cases "cost_table x y window distf")
  case (Inl e)
  then show ?thesis by (simp add: dtw_def)
next
  case (Inr D)
  then have "table_ok D"
    unfolding cost_table_def Let_def using dtw_loop_table_ok table_ok_initial by blast
  from backtrack_terminates[OF this, of "int (length x)" "int (length y)" "[]"] Inr
  show ?thesis by (auto simp: dtw_def)
qed

lemma dtw_loop_ok:
  assumes "table_cells x y wv" "\<not> nonpositive_number distf"
  shows "\<exists>D'. dtw_loop x y distf D wv = Inr D' \<and> dom D' = dom D \<union> set wv"
  using assms(1)
proof (induction wv arbitrary: D)
  case Nil
  then show ?case by simp
next
  case (Cons c wv)
  then have c: "1 \<le> fst c" "fst c \<le> int (length x)" "1 \<le> snd c" "snd c \<le> int (length y)" and wv: "table_cells x y wv"
    by (auto simp: table_cells_def)
  obtain D1 where D1: "dtw_cell x y distf D c = Inr D1" "dom D1 = insert c (dom D)"
    using dtw_cell_ok[OF c assms(2), of D] by auto
  from Cons.IH[OF wv, of D1] obtain D' where "dtw_loop x y distf D1 wv = Inr D'"
    "dom D' = dom D1 \<union> set wv" by blast
  with D1 show ?case by auto
qed

lemma table_cells_shift: "in_range x y w \<Longrightarrow> table_cells x y (map (\<lambda>c. (fst c + 1, snd c + 1)) w)"
  by (auto simp: in_range_def table_cells_def list_all_iff)

lemma cost_table_ok:
  assumes "in_range x y (window_or_full x y window)" "\<not> nonpositive_number distf"
  shows "\<exists>D. cost_table x y window distf = Inr D \<and> table_ok D \<and>
     dom D = insert (0, 0) ((\<lambda>c. (fst c + 1, snd c + 1)) ` set (window_or_full x y window))"
proof -
  from dtw_loop_ok[OF table_cells_shift[OF assms(1)] assms(2), of initial_table]
  obtain D where D: "cost_table x y window distf = Inr D" 
    "dom D = dom initial_table \<union> set (map (\<lambda>c. (fst c + 1, snd c + 1)) (window_or_full x y window))"
    by (auto simp: cost_table_def Let_def)
  moreover from D(1) have "table_ok D"
    unfolding cost_table_def Let_def using dtw_loop_table_ok table_ok_initial by blast
  ultimately show ?thesis by (auto simp: initial_table_def)
qed


section \<open>A radius that covers both sequences\<close>

lemma in_range_full: "in_range x y (window_or_full x y None)"
  by (auto simp: in_range_def window_or_full_def full_window_def list_all_iff)

lemma dtw_Inr:
  assumes "in_range x y (window_or_full x y window)" "\<not> nonpositive_number distf"
  shows "\<exists>D p. cost_table x y window distf = Inr D \<and> table_ok D
     \<and> dom D = insert (0, 0) ((\<lambda>c. (fst c + 1, snd c + 1)) ` set (window_or_full x y window))
     \<and> backtrack D (int (length x)) (int (length y)) [] = Some p
     \<and> dtw x y window distf = Some (Inr (cost (map_index D (int (length x), int (length y))), rev p))"
proof -
  from cost_table_ok[OF assms] obtain D where D: "cost_table x y window distf = Inr D" "table_ok D"
    "dom D = insert (0, 0) ((\<lambda>c. (fst c + 1, snd c + 1)) ` set (window_or_full x y window))" by blast
  from backtrack_terminates[OF D(2), of "int (length x)" "int (length y)" "[]"]
  obtain p where "backtrack D (int (length x)) (int (length y)) [] = Some p" by auto
  with D show ?thesis by (auto simp: dtw_def)
qed

lemma c_int_id: "- 2147483648 \<le> n \<Longrightarrow> n \<le> 2147483647 \<Longrightarrow> c_int n = n"
  by (simp add: c_int_def)

lemma c_int_wraps: "2147483646 \<le> r \<Longrightarrow> \<not> 2147483647 < r \<Longrightarrow> c_int (r + 2) < 0"
proof -
  assume "2147483646 \<le> r" "\<not> 2147483647 < r"
  then have "r = 2147483646 \<or> r = 2147483647" by arith
  then show ?thesis by (auto simp: c_int_def)
qed

lemma fastdtw_wrapped_radius:
  "fastdtw x y radius distf = Some res \<Longrightarrow>
     \<not> nonpositive_number distf \<longrightarrow> 2147483646 \<le> radius \<longrightarrow> 2147483647 < radius"
  apply (erule fastdtw.raw_induct[where xa="(((x, y), radius), distf)" and ya=res
      and P="\<lambda>x y radius distf res.
        \<not> nonpositive_number distf \<longrightarrow> 2147483646 \<le> radius \<longrightarrow> 2147483647 < radius",
      simplified, rotated])
  apply (auto simp: Let_def dest: c_int_wraps split: if_splits Option.bind_splits)
  done

text \<open>
  Claim C3, as the code has it. With \<open>max(len(x), len(y)) \<le> radius \<le> 2147483645\<close>, so
  that \<open>radius + 2\<close> is inside the range of the C \<open>int\<close> that holds it, and a \<open>dist\<close> that
  passes the check, \<open>fastdtw\<close> returns, and returns what the exact
  \<open>dtw(x, y, None, dist)\<close> returns: the same cost (and the same path).
\<close>

theorem fastdtw_large_radius_exact:
  assumes "int (max (length x) (length y)) \<le> radius" "radius \<le> 2147483645"
    "\<not> nonpositive_number distf"
  shows "\<exists>c p. fastdtw x y radius distf = Some (Inr (c, p))
     \<and> dtw x y None distf = Some (Inr (c, p))"
proof -
  from assms(1) have r: "0 \<le> radius" by simp
  with assms(2) have "c_int (radius + 2) = radius + 2" by (intro c_int_id) simp_all
  moreover from assms(1) have "int (length x) < radius + 2" by simp
  ultimately have "fastdtw x y radius distf = dtw x y None distf"
    using assms(2,3) r by (subst fastdtw.simps) (simp add: Let_def)
  moreover from dtw_Inr[OF in_range_full assms(3), of x y]
  obtain c p where "dtw x y None distf = Some (Inr (c, p))" by blast
  ultimately show ?thesis by simp
qed

theorem fastdtw_large_radius_exact_witness:
  "\<exists>c p. fastdtw [1, 2, 3] [2, 4] 3 DistNone = Some (Inr (c, p))
     \<and> dtw [1, 2, 3] [2, 4] None DistNone = Some (Inr (c, p))"
  using fastdtw_large_radius_exact [of "[1, 2, 3]" "[2, 4]" 3 DistNone]
  by (simp add: nonpositive_number_def)

text \<open>
  With the radius \<open>2147483647\<close>, the largest C \<open>int\<close>, \<open>radius + 2\<close> wraps to
  \<open>-2147483647\<close>: no length is below it, every call coarsens and calls \<open>fastdtw\<close>
  again, and the call returns nothing, while the exact solver returns the cost 2.
  The radius \<open>2147483646\<close> does the same.
\<close>

theorem large_radius_counterexample:
  "fastdtw [1, 2, 3] [2, 4] 2147483647 DistNone = None
     \<and> fastdtw [1, 2, 3] [2, 4] 2147483646 DistNone = None
     \<and> dtw [1, 2, 3] [2, 4] None DistNone = Some (Inr (Fin 2, [(0, 0), (1, 0), (2, 1)]))"
proof -
  have "fastdtw [1, 2, 3] [2, 4] 2147483647 DistNone = None"
    using fastdtw_wrapped_radius[of "[1, 2, 3]" "[2, 4]" 2147483647 DistNone]
    by (cases "fastdtw [1, 2, 3] [2, 4] 2147483647 DistNone")
      (simp_all add: nonpositive_number_def)
  moreover have "fastdtw [1, 2, 3] [2, 4] 2147483646 DistNone = None"
    using fastdtw_wrapped_radius[of "[1, 2, 3]" "[2, 4]" 2147483646 DistNone]
    by (cases "fastdtw [1, 2, 3] [2, 4] 2147483646 DistNone")
      (simp_all add: nonpositive_number_def)
  moreover have "dtw [1, 2, 3] [2, 4] None DistNone
      = Some (Inr (Fin 2, [(0, 0), (1, 0), (2, 1)]))"
    by code_simp
  ultimately show ?thesis by simp
qed

section \<open>A window that leaves the last cell out\<close>

lemma py_get_ok: "0 \<le> i \<Longrightarrow> i < int (length x) \<Longrightarrow> py_get x i = Inr (x ! nat i)"
  by (simp add: py_get_def Let_def)

lemma py_chain:
  fixes u l c :: "'a::linorder"
  shows "(if c < l \<and> c < u then c else if l < u then l else u) = min u (min l c)"
  by (auto simp: min_def not_less intro: antisym)

lemma dtw_cell_py_ok:
  assumes "0 \<le> fst c" "fst c < int (length x)" "0 \<le> snd c" "snd c < int (length y)"
  shows "dtw_cell_py x y f (int (length y) + 1) D c =
     Inr (D((fst c + 1, snd c + 1) \<mapsto>
       (add_dt (min (py_cost D (fst c, snd c + 1)) (min (py_cost D (fst c + 1, snd c)) (py_cost D (fst c, snd c))))
           (f (x ! nat (fst c)) (y ! nat (snd c))),
        py_predecessor (py_cost D (fst c, snd c + 1)) (py_cost D (fst c + 1, snd c)) (py_cost D (fst c, snd c))
           (fst c + 1) (snd c + 1))))"
proof -
  let ?u = "py_cost D (fst c, snd c + 1)" and ?l = "py_cost D (fst c + 1, snd c)" and ?c = "py_cost D (fst c, snd c)"
  have m: "min ?u (min ?l ?c) = (if ?c < ?l \<and> ?c < ?u then ?c else if ?l < ?u then ?l else ?u)"
    by (simp only: py_chain)
  from assms have "snd c \<noteq> int (length y) + 1" by simp
  with assms show ?thesis
    unfolding m by (simp add: dtw_cell_py_def py_get_ok Let_def py_predecessor_def)
qed

lemma dtw_loop_py_ok:
  assumes "in_range x y w"
  shows "\<exists>D'. dtw_loop_py x y f (int (length y) + 1) D w = Inr D'
     \<and> dom D' = dom D \<union> (\<lambda>c. (fst c + 1, snd c + 1)) ` set w"
  using assms
proof (induction w arbitrary: D)
  case Nil
  then show ?case by simp
next
  case (Cons c w)
  then have c: "0 \<le> fst c" "fst c < int (length x)" "0 \<le> snd c" "snd c < int (length y)"
    and w: "in_range x y w" by (auto simp: in_range_def)
  obtain D1 where D1: "dtw_cell_py x y f (int (length y) + 1) D c = Inr D1"
     "dom D1 = insert (fst c + 1, snd c + 1) (dom D)"
    using dtw_cell_py_ok[OF c, of f D] by auto
  from Cons.IH[OF w, of D1] obtain D' where "dtw_loop_py x y f (int (length y) + 1) D1 w = Inr D'"
    "dom D' = dom D1 \<union> (\<lambda>c. (fst c + 1, snd c + 1)) ` set w" by blast
  with D1 show ?case by (auto simp: case_prod_beta)
qed

lemma dtw_unpopulated:
  assumes "in_range x y (window_or_full x y window)"
    and "\<not> nonpositive_number distf"
    and "(int (length x) - 1, int (length y) - 1) \<notin> set (window_or_full x y window)"
    and "x \<noteq> [] \<or> y \<noteq> []"
  shows "dtw x y window distf
    = Some (Inr (Fin 0, [(unsigned_pred (int (length x)), unsigned_pred (int (length y)))]))"
proof -
  let ?i = "int (length x)" and ?j = "int (length y)"
  from dtw_Inr[OF assms(1,2)] obtain D p where D: 
    "dom D = insert (0, 0) ((\<lambda>c. (fst c + 1, snd c + 1)) ` set (window_or_full x y window))"
    "backtrack D ?i ?j [] = Some p"
    "dtw x y window distf = Some (Inr (cost (map_index D (?i, ?j)), rev p))" by blast
  from assms(4) have ne: "\<not> (?i = ?j \<and> ?j = 0)" by auto
  have "(?i, ?j) \<notin> dom D"
    unfolding D(1) using assms(3) ne by (auto simp: image_iff)
  then have none: "D (?i, ?j) = None" by blast
  have "backtrack D ?i ?j [] = backtrack D 0 0 [(unsigned_pred ?i, unsigned_pred ?j)]"
    using ne none backtrack.simps[of D ?i ?j "[]"] by (auto simp: map_index_def zero_entry_def)
  also have "\<dots> = Some [(unsigned_pred ?i, unsigned_pred ?j)]"
    using backtrack.simps[of D 0 0] by simp
  finally have "p = [(unsigned_pred ?i, unsigned_pred ?j)]" using D(2) by simp
  with D(3) none show ?thesis by (simp add: map_index_def zero_entry_def)
qed

lemma dtw_py_unpopulated:
  assumes "in_range x y (window_or_full x y window)"
    and "(int (length x) - 1, int (length y) - 1) \<notin> set (window_or_full x y window)"
    and "x \<noteq> [] \<or> y \<noteq> []"
  shows "dtw_py x y window f = Some (Inl IndexError)"
proof -
  let ?i = "int (length x)" and ?j = "int (length y)"
  from dtw_loop_py_ok[OF assms(1), of f initial_table_py] obtain D where D:
    "dtw_loop_py x y f (?j + 1) initial_table_py (window_or_full x y window) = Inr D"
    "dom D = dom initial_table_py \<union> (\<lambda>c. (fst c + 1, snd c + 1)) ` set (window_or_full x y window)"
    by blast
  from assms(3) have ne: "\<not> (?i = ?j \<and> ?j = 0)" by auto
  have "(?i, ?j) \<notin> dom D"
    unfolding D(2) using assms(2) ne by (auto simp: image_iff initial_table_py_def)
  then have none: "D (?i, ?j) = None" by blast
  have "backtrack_py D ?i ?j [] = Some (Inl IndexError)"
    using ne none backtrack_py.simps[of D ?i ?j "[]"] by auto
  with D(1) show ?thesis by (simp add: dtw_py_def Let_def)
qed

text \<open>
  Claim C8, as the code has it. Let the window be inside the grid and leave the cell
  \<open>(len(x) - 1, len(y) - 1)\<close> out, for sequences that are not both empty. No error
  names the condition. The \<open>dtw\<close> of \<^verbatim>\<open>_fastdtw.pyx\<close> returns: \<^verbatim>\<open>D[key]\<close> creates the
  missing entry with zeros, so the cost is 0 and, for sequences that are both not
  empty, the path is the single cell \<open>(len(x) - 1, len(y) - 1)\<close>. The \<open>dtw\<close> of
  \<^verbatim>\<open>fastdtw.pyx\<close> raises the \<open>IndexError\<close> of the read of element 1 of \<^verbatim>\<open>(inf,)\<close>.
\<close>

theorem dtw_unpopulated_terminal:
  assumes "in_range x y (window_or_full x y window)"
    and "\<not> nonpositive_number distf"
    and "(int (length x) - 1, int (length y) - 1) \<notin> set (window_or_full x y window)"
    and "x \<noteq> [] \<or> y \<noteq> []"
  shows "(\<exists>p. dtw x y window distf = Some (Inr (Fin 0, p))
            \<and> (x \<noteq> [] \<and> y \<noteq> [] \<longrightarrow> p = [(int (length x) - 1, int (length y) - 1)]))
     \<and> dtw_py x y window f = Some (Inl IndexError)"
  using dtw_unpopulated[OF assms] dtw_py_unpopulated[OF assms(1,3,4)]
  by (simp add: unsigned_pred_def)

theorem dtw_unpopulated_terminal_witness:
  "(\<exists>p. dtw [1, 2] [3, 4] (Some [(0, 0)]) DistNone = Some (Inr (Fin 0, p)) \<and> p = [(1, 1)])
   \<and> dtw_py [1, 2] [3, 4] (Some [(0, 0)]) manhattan = Some (Inl IndexError)"
  using dtw_unpopulated_terminal [of "[1, 2]" "[3, 4]" "Some [(0, 0)]" DistNone manhattan]
  by (simp add: in_range_def window_or_full_def nonpositive_number_def)

text \<open>
  An empty sequence against one of three elements, and an empty window on two
  sequences of two elements: a result and an \<open>IndexError\<close>, no error of the window.
\<close>

theorem unpopulated_terminal_counterexample:
  "(\<exists>p. dtw [] [1, 2, 3] None DistNone = Some (Inr (Fin 0, p)))
   \<and> dtw_py [] [1, 2, 3] None manhattan = Some (Inl IndexError)
   \<and> dtw [1, 2] [1, 2] (Some []) DistNone = Some (Inr (Fin 0, [(1, 1)]))"
proof -
  have "dtw [] [1, 2, 3] None DistNone = Some (Inr (Fin 0, [(4294967295, 2)]))"
    by code_simp
  moreover have "dtw_py [] [1, 2, 3] None manhattan = Some (Inl IndexError)"
    by code_simp
  moreover have "dtw [1, 2] [1, 2] (Some []) DistNone = Some (Inr (Fin 0, [(1, 1)]))"
    by code_simp
  ultimately show ?thesis by simp
qed

section \<open>The solvers of the three files\<close>

lemma dtw_cell_p0_eq: "dtw_cell_p0 x y f D c = dtw_cell x y (DistFun f) D c"
  by (auto simp: dtw_cell_p0_def dtw_cell_def get_cost_def map_index_def choose_entry_def Let_def
      split: sum.splits option.splits)

lemma dtw_loop_p0_eq: "dtw_loop_p0 x y f D w = dtw_loop x y (DistFun f) D w"
  by (induction w arbitrary: D) (simp_all add: dtw_cell_p0_eq split: sum.splits)

lemma backtrack_p0_unsigned:
  assumes "table_ok D" "0 \<le> i" "0 \<le> j"
  shows "\<exists>p. backtrack_p0 D i j acc = Some p
     \<and> backtrack D i j (map unsigned_cell acc) = Some (map unsigned_cell p)"
  using assms(2,3)
proof (induction "nat (i + j)" arbitrary: i j acc rule: less_induct)
  case less
  have u: "(unsigned_pred i, unsigned_pred j) = unsigned_cell (i - 1, j - 1)"
    by (simp add: unsigned_pred_def unsigned_cell_def as_unsigned_def)
  show ?case
  proof (cases "i = j \<and> j = 0")
    case True
    then show ?thesis
      using backtrack_p0.simps[of D i j acc] backtrack.simps[of D i j "map unsigned_cell acc"]
      by simp
  next
    case False
    let ?e = "map_index D (i, j)"
    have "backtrack_p0 D i j acc
        = backtrack_p0 D (prev_x_idx ?e) (prev_y_idx ?e) (acc @ [(i - 1, j - 1)])"
      by (subst backtrack_p0.simps[of D i j acc]) (simp add: False Let_def)
    moreover have "backtrack D i j (map unsigned_cell acc)
        = backtrack D (prev_x_idx ?e) (prev_y_idx ?e) (map unsigned_cell (acc @ [(i - 1, j - 1)]))"
      by (subst backtrack.simps[of D i j "map unsigned_cell acc"]) (simp add: False Let_def u)
    ultimately have step: "backtrack_p0 D i j acc
        = backtrack_p0 D (prev_x_idx ?e) (prev_y_idx ?e) (acc @ [(i - 1, j - 1)])"
      "backtrack D i j (map unsigned_cell acc)
        = backtrack D (prev_x_idx ?e) (prev_y_idx ?e) (map unsigned_cell (acc @ [(i - 1, j - 1)]))"
      by simp_all
    show ?thesis
    proof (cases "D (i, j)")
      case None
      then have e: "prev_x_idx ?e = 0" "prev_y_idx ?e = 0"
        by (simp_all add: map_index_def zero_entry_def)
      show ?thesis
        unfolding step e
        using backtrack_p0.simps[of D 0 0] backtrack.simps[of D 0 0] by simp
    next
      case (Some e)
      then have me: "?e = e" by (simp add: map_index_def)
      from Some assms(1) False have e: "1 \<le> i" "1 \<le> j"
        "(prev_x_idx e, prev_y_idx e) \<in> set (predecessors (i, j))"
        by (auto simp: table_ok_def)
      then have "nat (prev_x_idx e + prev_y_idx e) < nat (i + j)" "0 \<le> prev_x_idx e"
        "0 \<le> prev_y_idx e"
        by (auto simp: predecessors_def)
      from less(1)[OF this, of "acc @ [(i - 1, j - 1)]"] show ?thesis
        unfolding step me .
    qed
  qed
qed

lemma dtw_p0_unsigned:
  "\<exists>r. dtw_p0 x y window f = Some r \<and> dtw x y window (DistFun f) = Some (unsigned_path r)"
proof (cases "cost_table x y window (DistFun f)")
  case (Inl e)
  then show ?thesis
    by (simp add: dtw_p0_def dtw_def cost_table_def dtw_loop_p0_eq Let_def unsigned_path_def)
next
  case (Inr D)
  then have "table_ok D"
    unfolding cost_table_def Let_def using dtw_loop_table_ok table_ok_initial by blast
  from backtrack_p0_unsigned[OF this, of "int (length x)" "int (length y)" "[]"]
  obtain p where "backtrack_p0 D (int (length x)) (int (length y)) [] = Some p"
    "backtrack D (int (length x)) (int (length y)) [] = Some (map unsigned_cell p)" by auto
  with Inr show ?thesis
    by (simp add: dtw_p0_def dtw_def cost_table_def dtw_loop_p0_eq Let_def unsigned_path_def
        rev_map)
qed

lemma tables_agree:
  assumes "in_range x y w"
    and "\<forall>k. py_cost Dpy k = get_cost D (fst k) (snd k) INFINITY \<and> (Dpy k = None \<longleftrightarrow> D k = None)"
    and "dtw_loop x y (DistFun f) D (map (\<lambda>c. (fst c + 1, snd c + 1)) w) = Inr D'"
    and "dtw_loop_py x y f (int (length y) + 1) Dpy w = Inr Dpy'"
  shows "\<forall>k. py_cost Dpy' k = get_cost D' (fst k) (snd k) INFINITY \<and> (Dpy' k = None \<longleftrightarrow> D' k = None)"
  using assms
proof (induction w arbitrary: D Dpy)
  case Nil
  then show ?case by simp
next
  case (Cons c w)
  then have c: "0 \<le> fst c" "fst c < int (length x)" "0 \<le> snd c" "snd c < int (length y)"
    and w: "in_range x y w" by (auto simp: in_range_def)
  let ?c = "(fst c + 1, snd c + 1)"
  have c': "1 \<le> fst ?c" "fst ?c \<le> int (length x)" "1 \<le> snd ?c" "snd ?c \<le> int (length y)"
    using c by auto
  have nn: "\<not> nonpositive_number (DistFun f)" by (simp add: nonpositive_number_def)
  let ?D1 = "D(?c \<mapsto> choose_entry (get_cost D (fst ?c - 1) (snd ?c) INFINITY)
           (get_cost D (fst ?c) (snd ?c - 1) INFINITY) (get_cost D (fst ?c - 1) (snd ?c - 1) INFINITY)
           (dist_fun (DistFun f) (x ! nat (fst ?c - 1)) (y ! nat (snd ?c - 1))) (fst ?c) (snd ?c))"
  let ?P1 = "Dpy(?c \<mapsto>
       (add_dt (min (py_cost Dpy (fst c, snd c + 1)) (min (py_cost Dpy (fst c + 1, snd c)) (py_cost Dpy (fst c, snd c))))
           (f (x ! nat (fst c)) (y ! nat (snd c))),
        py_predecessor (py_cost Dpy (fst c, snd c + 1)) (py_cost Dpy (fst c + 1, snd c)) (py_cost Dpy (fst c, snd c))
           (fst c + 1) (snd c + 1)))"
  have cy: "dtw_cell x y (DistFun f) D ?c = Inr ?D1"
    by (rule dtw_cell_ok[OF c' nn])
  have py: "dtw_cell_py x y f (int (length y) + 1) Dpy c = Inr ?P1"
    by (rule dtw_cell_py_ok[OF c])
  have l1: "dtw_loop x y (DistFun f) ?D1 (map (\<lambda>c. (fst c + 1, snd c + 1)) w) = Inr D'"
    using Cons.prems(3) cy by (simp add: case_prod_beta)
  have l2: "dtw_loop_py x y f (int (length y) + 1) ?P1 w = Inr Dpy'"
    using Cons.prems(4) py by simp
  have "\<forall>k. py_cost ?P1 k = get_cost ?D1 (fst k) (snd k) INFINITY \<and> (?P1 k = None \<longleftrightarrow> ?D1 k = None)"
  proof
    fix k
    have "py_cost Dpy (fst c, snd c + 1) = get_cost D (fst c) (snd c + 1) INFINITY"
      "py_cost Dpy (fst c + 1, snd c) = get_cost D (fst c + 1) (snd c) INFINITY"
      "py_cost Dpy (fst c, snd c) = get_cost D (fst c) (snd c) INFINITY"
      "py_cost Dpy k = get_cost D (fst k) (snd k) INFINITY" "Dpy k = None \<longleftrightarrow> D k = None"
      using spec[OF Cons.prems(2), of "(fst c, snd c + 1)"] spec[OF Cons.prems(2), of "(fst c + 1, snd c)"]
        spec[OF Cons.prems(2), of c] spec[OF Cons.prems(2), of k] by simp_all
    then show "py_cost ?P1 k = get_cost ?D1 (fst k) (snd k) INFINITY \<and> (?P1 k = None \<longleftrightarrow> ?D1 k = None)"
      by (cases "k = ?c") (simp_all add: py_cost_def get_cost_def choose_entry_cost dist_fun_def)
  qed
  from Cons.IH[OF w this l1 l2] show ?case .
qed

lemma dtw_py_cost:
  assumes "in_range x y (window_or_full x y window)"
    and "dtw_py x y window f = Some (Inr (c, p))"
  shows "\<exists>p'. dtw x y window (DistFun f) = Some (Inr (c, p'))"
proof -
  let ?w = "window_or_full x y window"
  let ?i = "int (length x)" and ?j = "int (length y)"
  have nn: "\<not> nonpositive_number (DistFun f)" by (simp add: nonpositive_number_def)
  from dtw_Inr[OF assms(1) nn] obtain D q where D: "cost_table x y window (DistFun f) = Inr D"
    "dtw x y window (DistFun f) = Some (Inr (cost (map_index D (?i, ?j)), rev q))" by blast
  from dtw_loop_py_ok[OF assms(1), of f initial_table_py] obtain Dpy where Dpy:
    "dtw_loop_py x y f (?j + 1) initial_table_py ?w = Inr Dpy"
    "dom Dpy = dom initial_table_py \<union> (\<lambda>c. (fst c + 1, snd c + 1)) ` set ?w"
    by blast
  have init: "\<forall>k. py_cost initial_table_py k = get_cost initial_table (fst k) (snd k) INFINITY
      \<and> (initial_table_py k = None \<longleftrightarrow> initial_table k = None)"
    by (simp add: py_cost_def get_cost_def initial_table_def initial_table_py_def zero_entry_def)
  from D(1) have loop: "dtw_loop x y (DistFun f) initial_table (map (\<lambda>c. (fst c + 1, snd c + 1)) ?w) = Inr D"
    by (simp add: cost_table_def Let_def)
  note R = tables_agree[OF assms(1) init loop Dpy(1), rule_format, of "(?i, ?j)"]
  from assms(2) Dpy(1) obtain q' where q': "backtrack_py Dpy ?i ?j [] = Some (Inr q')"
    and c: "c = py_cost Dpy (?i, ?j)"
    by (auto simp: dtw_py_def Let_def split: option.splits sum.splits)
  have "Dpy (?i, ?j) \<noteq> None"
  proof (cases "?i = ?j \<and> ?j = 0")
    case True
    from Dpy(2) have "(0, 0) \<in> dom Dpy" by (simp add: initial_table_py_def)
    with True show ?thesis by auto
  next
    case False
    with q' backtrack_py.simps[of Dpy ?i ?j "[]"] show ?thesis by (auto split: option.splits)
  qed
  with R have "cost (map_index D (?i, ?j)) = py_cost Dpy (?i, ?j)"
    by (auto simp: map_index_def get_cost_def)
  with D(2) c show ?thesis by simp
qed

text \<open>
  Claim C6, as the code has it, for a window inside the grid (outside it the reads
  \<^verbatim>\<open>x[i - 1]\<close> are unchecked). The \<open>dtw\<close> of \<^verbatim>\<open>part_000\<close> and the \<open>dtw\<close> of \<^verbatim>\<open>_fastdtw.pyx\<close>
  return, with the same cost, and with the same path up to the type of the counters
  of the backtracking: where the path of \<^verbatim>\<open>part_000\<close> (\<^verbatim>\<open>int\<close>) has a coordinate \<open>-1\<close>, the
  path of \<^verbatim>\<open>_fastdtw.pyx\<close> (\<^verbatim>\<open>unsigned int\<close>) has \<open>4294967295\<close>; the results are identical
  when the path of \<^verbatim>\<open>part_000\<close> has no coordinate \<open>-1\<close>. The \<open>dtw\<close> of \<^verbatim>\<open>fastdtw.pyx\<close> breaks
  ties in another order: whenever it returns a cost and a path, the \<open>dtw\<close> of
  \<^verbatim>\<open>_fastdtw.pyx\<close> returns the same cost, with a path that can differ.
\<close>

theorem dtw_variants:
  assumes "in_range x y (window_or_full x y window)"
  shows "(\<exists>r. dtw_p0 x y window f = Some r \<and> dtw x y window (DistFun f) = Some (unsigned_path r))
   \<and> (dtw_p0 x y window f = Some (Inr (c, p)) \<longrightarrow> (\<forall>k \<in> set p. fst k \<noteq> - 1 \<and> snd k \<noteq> - 1)
        \<longrightarrow> dtw x y window (DistFun f) = Some (Inr (c, p)))
   \<and> (dtw_py x y window f = Some (Inr (c, p))
        \<longrightarrow> (\<exists>p'. dtw x y window (DistFun f) = Some (Inr (c, p'))))"
proof (intro conjI impI)
  show "\<exists>r. dtw_p0 x y window f = Some r \<and> dtw x y window (DistFun f) = Some (unsigned_path r)"
    by (rule dtw_p0_unsigned)
next
  assume r: "dtw_p0 x y window f = Some (Inr (c, p))"
    and p: "\<forall>k \<in> set p. fst k \<noteq> - 1 \<and> snd k \<noteq> - 1"
  from p have "map unsigned_cell p = p"
    by (induction p) (simp_all add: unsigned_cell_def as_unsigned_def)
  with r dtw_p0_unsigned[of x y window f] show "dtw x y window (DistFun f) = Some (Inr (c, p))"
    by (auto simp: unsigned_path_def)
next
  assume "dtw_py x y window f = Some (Inr (c, p))"
  with assms show "\<exists>p'. dtw x y window (DistFun f) = Some (Inr (c, p'))"
    by (rule dtw_py_cost)
qed

theorem dtw_variants_witness:
  "in_range [0, 0] [0, 0] (window_or_full [0, 0] [0, 0] None)
   \<and> (\<exists>r. dtw_p0 [0, 0] [0, 0] None manhattan = Some r
        \<and> dtw [0, 0] [0, 0] None (DistFun manhattan) = Some (unsigned_path r))
   \<and> dtw_p0 [0, 0] [0, 0] None manhattan = Some (Inr (Fin 0, [(0, 0), (1, 1)]))
   \<and> dtw [0, 0] [0, 0] None (DistFun manhattan) = Some (Inr (Fin 0, [(0, 0), (1, 1)]))
   \<and> dtw_py [0, 0] [0, 0] None manhattan = Some (Inr (Fin 0, [(0, 0), (0, 1), (1, 1)]))
   \<and> (\<exists>p'. dtw [0, 0] [0, 0] None (DistFun manhattan) = Some (Inr (Fin 0, p')))"
proof -
  have a: "dtw_py [0, 0] [0, 0] None manhattan = Some (Inr (Fin 0, [(0, 0), (0, 1), (1, 1)]))"
    by code_simp
  have b: "in_range [0, 0] [0, 0] (window_or_full [0, 0] [0, 0] None)"
    by code_simp
  have c: "dtw_p0 [0, 0] [0, 0] None manhattan = Some (Inr (Fin 0, [(0, 0), (1, 1)]))"
    by code_simp
  from dtw_variants [OF b, of manhattan "Fin 0" "[(0, 0), (0, 1), (1, 1)]"] a
  have 1: "\<exists>r. dtw_p0 [0, 0] [0, 0] None manhattan = Some r
        \<and> dtw [0, 0] [0, 0] None (DistFun manhattan) = Some (unsigned_path r)"
    and 3: "\<exists>p'. dtw [0, 0] [0, 0] None (DistFun manhattan) = Some (Inr (Fin 0, p'))"
    by blast+
  from dtw_variants [OF b, of manhattan "Fin 0" "[(0, 0), (1, 1)]"] c
  have 2: "dtw [0, 0] [0, 0] None (DistFun manhattan) = Some (Inr (Fin 0, [(0, 0), (1, 1)]))"
    by (simp add: unsigned_path_def unsigned_cell_def as_unsigned_def)
  from 1 2 3 a b c show ?thesis by blast
qed

text \<open>
  On two sequences of two zeros the \<open>dtw\<close> of \<^verbatim>\<open>fastdtw.pyx\<close> and of \<^verbatim>\<open>_fastdtw.pyx\<close> agree
  on the cost and differ on the path. On \<open>x = [3, 4]\<close>, \<open>y = [4]\<close> and the window
  \<open>[(1, 0)]\<close> the backtracking passes the cell \<open>(1, 0)\<close> of the table, whose column
  counter is 0: \<^verbatim>\<open>part_000\<close> appends \<open>(0, -1)\<close> and \<^verbatim>\<open>_fastdtw.pyx\<close> appends
  \<open>(0, 4294967295)\<close>.
\<close>

theorem dtw_variants_counterexample:
  "dtw_py [0, 0] [0, 0] None manhattan = Some (Inr (Fin 0, [(0, 0), (0, 1), (1, 1)]))
   \<and> dtw [0, 0] [0, 0] None (DistFun manhattan) = Some (Inr (Fin 0, [(0, 0), (1, 1)]))
   \<and> dtw_p0 [3, 4] [4] (Some [(1, 0)]) manhattan = Some (Inr (INFINITY, [(0, - 1), (1, 0)]))
   \<and> dtw [3, 4] [4] (Some [(1, 0)]) (DistFun manhattan)
       = Some (Inr (INFINITY, [(0, 4294967295), (1, 0)]))"
  by code_simp

section \<open>The order of the three comparisons\<close>

text \<open>
  Claim C5, as the code has it. At the cell \<open>(i, j)\<close> of the table, with the costs of
  the cells above, to the left and at the corner (a missing entry counts as infinity),
  the \<open>dtw\<close> of \<^verbatim>\<open>_fastdtw.pyx\<close> and of \<^verbatim>\<open>part_000\<close> take the cell above if its cost is
  below both others, else the cell to the left if its cost is below the corner's, else
  the corner. The \<open>dtw\<close> of \<^verbatim>\<open>fastdtw.pyx\<close>, which handles the cell \<open>(i, j)\<close> of the table at
  the window cell \<open>(i - 1, j - 1)\<close>, takes the corner if its cost is below both others,
  else the cell to the left if its cost is below that of the cell above, else the cell
  above: there the corner loses every tie.
\<close>

theorem predecessor_order:
  "(dtw_cell x y distf D (i, j) = Inr D' \<longrightarrow>
      (\<exists>e. D' (i, j) = Some e \<and> (prev_x_idx e, prev_y_idx e) =
         spec_predecessor (get_cost D (i - 1) j INFINITY) (get_cost D i (j - 1) INFINITY)
           (get_cost D (i - 1) (j - 1) INFINITY) i j))
   \<and> (dtw_cell_p0 x y f D (i, j) = Inr D' \<longrightarrow>
      (\<exists>e. D' (i, j) = Some e \<and> (prev_x_idx e, prev_y_idx e) =
         spec_predecessor (get_cost D (i - 1) j INFINITY) (get_cost D i (j - 1) INFINITY)
           (get_cost D (i - 1) (j - 1) INFINITY) i j))
   \<and> (dtw_cell_py x y f len_y_p1 Dpy (i - 1, j - 1) = Inr Dpy' \<longrightarrow> j - 1 \<noteq> len_y_p1 \<longrightarrow>
      (\<exists>t. Dpy' (i, j) = Some t \<and> snd t =
         py_predecessor (py_cost Dpy (i - 1, j)) (py_cost Dpy (i, j - 1)) (py_cost Dpy (i - 1, j - 1)) i j))"
proof (intro conjI impI)
  assume "dtw_cell x y distf D (i, j) = Inr D'"
  from dtw_cell_Inr[OF this] show "\<exists>e. D' (i, j) = Some e \<and> (prev_x_idx e, prev_y_idx e) =
         spec_predecessor (get_cost D (i - 1) j INFINITY) (get_cost D i (j - 1) INFINITY)
           (get_cost D (i - 1) (j - 1) INFINITY) i j"
    by (auto simp: choose_entry_prev)
next
  assume "dtw_cell_p0 x y f D (i, j) = Inr D'"
  then have "dtw_cell x y (DistFun f) D (i, j) = Inr D'" by (simp add: dtw_cell_p0_eq)
  from dtw_cell_Inr[OF this] show "\<exists>e. D' (i, j) = Some e \<and> (prev_x_idx e, prev_y_idx e) =
         spec_predecessor (get_cost D (i - 1) j INFINITY) (get_cost D i (j - 1) INFINITY)
           (get_cost D (i - 1) (j - 1) INFINITY) i j"
    by (auto simp: choose_entry_prev)
next
  assume "dtw_cell_py x y f len_y_p1 Dpy (i - 1, j - 1) = Inr Dpy'" "j - 1 \<noteq> len_y_p1"
  then show "\<exists>t. Dpy' (i, j) = Some t \<and> snd t =
         py_predecessor (py_cost Dpy (i - 1, j)) (py_cost Dpy (i, j - 1)) (py_cost Dpy (i - 1, j - 1)) i j"
    by (auto simp: dtw_cell_py_def Let_def py_predecessor_def split: sum.splits if_splits)
qed

theorem predecessor_order_witness:
  "dtw_cell [0] [0] DistNone initial_table (1, 1) = Inr (initial_table((1, 1) \<mapsto> zero_entry))
   \<and> dtw_cell_p0 [0] [0] manhattan initial_table (1, 1) = Inr (initial_table((1, 1) \<mapsto> zero_entry))
   \<and> dtw_cell_py [0] [0] manhattan 2 initial_table_py (0, 0)
       = Inr (initial_table_py((1, 1) \<mapsto> (Fin 0, 0, 0)))
   \<and> (\<exists>e. (initial_table((1, 1) \<mapsto> zero_entry)) (1, 1) = Some e
         \<and> (prev_x_idx e, prev_y_idx e) =
            spec_predecessor (get_cost initial_table 0 1 INFINITY) (get_cost initial_table 1 0 INFINITY)
              (get_cost initial_table 0 0 INFINITY) 1 1)
   \<and> (\<exists>t. (initial_table_py((1, 1) \<mapsto> (Fin 0, 0, 0))) (1, 1) = Some t
         \<and> snd t = py_predecessor (py_cost initial_table_py (0, 1)) (py_cost initial_table_py (1, 0))
              (py_cost initial_table_py (0, 0)) 1 1)"
proof -
  have a: "dtw_cell [0] [0] DistNone initial_table (1, 1) = Inr (initial_table((1, 1) \<mapsto> zero_entry))"
    by (simp add: dtw_cell_def seq_get_def get_cost_def initial_table_def choose_entry_def
        zero_entry_def manhattan_def Let_def)
  have b: "dtw_cell_p0 [0] [0] manhattan initial_table (1, 1)
      = Inr (initial_table((1, 1) \<mapsto> zero_entry))"
    by (simp add: dtw_cell_p0_def seq_get_def map_index_def initial_table_def zero_entry_def
        manhattan_def Let_def)
  have c: "dtw_cell_py [0] [0] manhattan 2 initial_table_py (0, 0)
      = Inr (initial_table_py((1, 1) \<mapsto> (Fin 0, 0, 0)))"
    by (simp add: dtw_cell_py_def py_get_def py_cost_def initial_table_py_def manhattan_def
        Let_def)
  from predecessor_order [of "[0]" "[0]" DistNone initial_table 1 1
      "initial_table((1, 1) \<mapsto> zero_entry)" manhattan 2 initial_table_py
      "initial_table_py((1, 1) \<mapsto> (Fin 0, 0, 0))"] a b c
  show ?thesis by simp
qed

text \<open>
  After the window cells \<open>(0, 0)\<close>, \<open>(0, 1)\<close> and \<open>(1, 0)\<close> of two sequences of two zeros,
  the three costs at the cell \<open>(2, 2)\<close> of the table are 0. The \<open>dtw\<close> of \<^verbatim>\<open>fastdtw.pyx\<close>
  takes the cell above, \<open>(1, 2)\<close>; the order of the claim takes the corner \<open>(1, 1)\<close>.
\<close>

theorem predecessor_order_counterexample:
  "(case dtw_loop_py [0, 0] [0, 0] manhattan 3 initial_table_py [(0, 0), (0, 1), (1, 0)] of
      Inl e \<Rightarrow> None
    | Inr D \<Rightarrow>
        (case dtw_cell_py [0, 0] [0, 0] manhattan 3 D (1, 1) of
           Inl e \<Rightarrow> None
         | Inr D' \<Rightarrow> Some (py_cost D (1, 2), py_cost D (2, 1), py_cost D (1, 1), D' (2, 2))))
     = Some (Fin 0, Fin 0, Fin 0, Some (Fin 0, 1, 2))
   \<and> spec_predecessor (Fin 0) (Fin 0) (Fin 0) 2 2 = (1, 1)"
  by code_simp

section \<open>Finite costs and the chain of predecessors\<close>

lemma add_dt_finite [simp]: "add_dt c dt = INFINITY \<longleftrightarrow> c = INFINITY"
  by (cases c) auto













section \<open>The exact recurrence\<close>

lemma linked_mono: "linked S ws \<Longrightarrow> S \<subseteq> S' \<Longrightarrow> linked S' ws"
proof (induction ws arbitrary: S S')
  case Nil
  then show ?case by simp
next
  case (Cons c ws)
  from Cons.prems have "linked (insert c S) ws" "insert c S \<subseteq> insert c S'" by auto
  from Cons.IH[OF this] Cons.prems show ?case by auto
qed












lemma le_INFINITY [simp]: "(a::cdouble) \<le> INFINITY"
  by (cases a) auto

















section \<open>Warping paths\<close>






lemma valid_path_facts:
  assumes "valid_path cx cy P"
  shows "P \<noteq> []" "P ! 0 = (0, 0)" "(0, 0) \<in> set P" "last P = (int cx - 1, int cy - 1)"
    "(int cx - 1, int cy - 1) \<in> set P" "successively step_ok P"
proof -
  from assms show ne: "P \<noteq> []" and s: "successively step_ok P"
    and l: "last P = (int cx - 1, int cy - 1)" by (auto simp: valid_path_def)
  from assms ne show z: "P ! 0 = (0, 0)" by (simp add: valid_path_def hd_conv_nth)
  from ne z show "(0, 0) \<in> set P" by (metis length_greater_0_conv nth_mem)
  from ne l show "(int cx - 1, int cy - 1) \<in> set P" by (metis last_in_set)
qed





section \<open>The cells offered to the row compaction\<close>





lemma nearI:
  "p \<in> set P \<Longrightarrow> fst p - r \<le> i div 2 \<Longrightarrow> i div 2 \<le> fst p + r \<Longrightarrow>
   snd p - r \<le> j div 2 \<Longrightarrow> j div 2 \<le> snd p + r \<Longrightarrow> near P r (i, j)"
  unfolding near_def by (intro bexI[of _ p]) auto


lemma near_origin: "valid_path cx cy P \<Longrightarrow> 0 \<le> r \<Longrightarrow> near P r (0, 0)"
  using valid_path_facts(3)[of cx cy P] by (intro nearI[of "(0, 0)"]) auto






section \<open>The window of a coarse warping path\<close>





section \<open>The recursion on the coarsened sequences\<close>








section \<open>Warping paths of the solvers\<close>






section \<open>The cost of the approximation\<close>




end
